theory Spec2Isabelle
  imports Main
begin

text \<open>
  A shallow embedding of the dashboard shell: route resolution and the composition of the
  embedded frame's URL (App.tsx), the sidebar's rendering and open-submenu set
  (components/Sidebar.tsx), the settings provider (contexts/SettingsContext.tsx) and the
  two effects that write to \<open>localStorage\<close>. Definitions come first, lemmas and the
  theorems about the specification after them.
\<close>

section \<open>Configuration data (types.ts as used by App.tsx and Sidebar.tsx)\<close>

text \<open>
  A JavaScript string is modelled as a \<^typ>\<open>string\<close>, one list element per code unit.
  The optional property \<open>iframeUrl\<close> of a link is an \<^typ>\<open>string option\<close>
  (\<open>None\<close> is \<open>undefined\<close>).
\<close>

record NavLink =
  href :: string
  label :: string
  icon :: string
  iframeUrl :: "string option"

text \<open>
  The tagged union \<open>NavItem\<close>, discriminated by \<open>type\<close>: a link, a header with its
  label, or a submenu with label, icon, path and children.
\<close>

datatype NavItem =
    Link NavLink
  | Header string
  | Submenu string string string "NavLink list"

record SidebarSettings =
  defaultState :: string
  logoUrl :: string
  navItems :: "NavItem list"

record SecuritySettings =
  allowedIframeDomains :: "string list option"

record AppSettings =
  theme :: "(string \<times> string) list"
  security :: "SecuritySettings option"
  sidebar :: SidebarSettings

section \<open>String operations of the host language\<close>

definition startsWith :: "string \<Rightarrow> string \<Rightarrow> bool" where
  "startsWith s p = (take (length p) s = p)"

definition endsWith :: "string \<Rightarrow> string \<Rightarrow> bool" where
  "endsWith s p = (length p \<le> length s \<and> drop (length s - length p) s = p)"

text \<open>\<open>s[i]\<close>: the code unit at index \<open>i\<close>, \<open>undefined\<close> (here \<open>None\<close>) out of range.\<close>

definition charAt :: "string \<Rightarrow> nat \<Rightarrow> char option" where
  "charAt s i = (if i < length s then Some (s ! i) else None)"

text \<open>\<open>s.substring(n)\<close>: the rest of \<open>s\<close> from index \<open>n\<close>, empty when \<open>n\<close> is past the end.\<close>

definition substring :: "string \<Rightarrow> nat \<Rightarrow> string" where
  "substring s n = drop n s"

text \<open>Truthiness of a value of type \<open>string | null | undefined\<close>.\<close>

definition truthy :: "string option \<Rightarrow> bool" where
  "truthy v = (case v of None \<Rightarrow> False | Some s \<Rightarrow> s \<noteq> [])"

section \<open>Route resolution (App.tsx)\<close>

type_synonym Match = "NavLink \<times> string"

text \<open>
  The closure \<open>checkItem\<close> of \<open>findNavItemByHref\<close>; the variable \<open>bestMatch\<close> it
  assigns is passed in and returned.
\<close>

definition checkItem :: "string \<Rightarrow> Match option \<Rightarrow> NavLink \<Rightarrow> Match option" where
  "checkItem h bestMatch item =
     (if startsWith h (href item) then
        (let nextChar = charAt h (length (href item)) in
         if nextChar = None \<or> nextChar = Some CHR ''#'' then
           (if bestMatch = None \<or> length (href item) > length (href (fst (the bestMatch))) then
              Some (item, substring h (length (href item)))
            else bestMatch)
         else bestMatch)
      else bestMatch)"

text \<open>One round of the loop over \<open>navItems\<close>.\<close>

fun visitItem :: "string \<Rightarrow> Match option \<Rightarrow> NavItem \<Rightarrow> Match option" where
  "visitItem h bestMatch (Link l) = checkItem h bestMatch l"
| "visitItem h bestMatch (Header t) = bestMatch"
| "visitItem h bestMatch (Submenu t i p children) = foldl (checkItem h) bestMatch children"

definition findNavItemByHref :: "NavItem list \<Rightarrow> string \<Rightarrow> Match option" where
  "findNavItemByHref items h = foldl (visitItem h) None items"

fun findDefaultHref :: "NavItem list \<Rightarrow> string" where
  "findDefaultHref [] = ''#/''"
| "findDefaultHref (Link l # items) = href l"
| "findDefaultHref (Submenu t i p (c # cs) # items) = href c"
| "findDefaultHref (item # items) = findDefaultHref items"

text \<open>The argument \<open>PageContent\<close> gives to \<open>findNavItemByHref\<close> (line 91). The
  location's hash is written \<open>locHash\<close> here and below, and the \<open>iframeUrl\<close> the effect
  receives \<open>configuredUrl\<close>: \<open>hash\<close> and \<open>iframeUrl\<close> name record fields.\<close>

definition routeHref :: "NavItem list \<Rightarrow> string \<Rightarrow> string" where
  "routeHref items locHash = (if locHash = ''#/'' then findDefaultHref items else locHash)"

text \<open>\<open>match?.navLink\<close>, \<open>match?.iframeHash ?? ''\<close> and \<open>activeItem?.iframeUrl\<close>
  (lines 92 to 94).\<close>

definition PageContent_match :: "AppSettings \<Rightarrow> string \<Rightarrow> Match option" where
  "PageContent_match settings locHash =
     findNavItemByHref (navItems (sidebar settings)) (routeHref (navItems (sidebar settings)) locHash)"

definition activeItemOf :: "Match option \<Rightarrow> NavLink option" where
  "activeItemOf m = (case m of None \<Rightarrow> None | Some (navLink, h) \<Rightarrow> Some navLink)"

definition iframeHashOf :: "Match option \<Rightarrow> string" where
  "iframeHashOf m = (case m of None \<Rightarrow> [] | Some (navLink, h) \<Rightarrow> h)"

definition iframeUrlOf :: "Match option \<Rightarrow> string option" where
  "iframeUrlOf m = (case m of None \<Rightarrow> None | Some (navLink, h) \<Rightarrow> iframeUrl navLink)"

section \<open>The browser\<close>

text \<open>
  The object a \<open>new URL(...)\<close> yields, as far as the program reads and writes it: the
  components that make up its serialization, its list of query pairs (\<open>searchParams\<close>,
  to which \<open>append\<close> adds at the end) and its \<open>hash\<close>. The record keeps what the
  program assigns; the percent-encoding the browser applies belongs to \<open>toString\<close>.
\<close>

record URL =
  protocol :: string
  hostname :: string
  port :: string
  pathname :: string
  searchParams :: "(string \<times> string) list"
  hash :: string

text \<open>
  What the program takes from the browser and does not define itself:
  \<open>window.location.origin\<close>, \<open>window.location.search\<close>, the \<open>URL\<close> constructor
  (\<open>None\<close> when it throws), the \<open>URLSearchParams\<close> constructor (the pairs in the
  order \<open>forEach\<close> visits them), \<open>URL.toString\<close>, and \<open>JSON.stringify\<close> on an
  array of strings. They are parameters of the model.
\<close>

record Window =
  location_origin :: string
  location_search :: string
  newURL :: "string \<Rightarrow> string \<Rightarrow> URL option"
  newURLSearchParams :: "string \<Rightarrow> (string \<times> string) list"
  toString :: "URL \<Rightarrow> string"
  JSON_stringify :: "string list \<Rightarrow> string"

section \<open>The content effect of PageContent (App.tsx, lines 97 to 152)\<close>

record PageState =
  finalIframeUrl :: "string option"
  securityError :: "string option"
  isIframeLoading :: bool

definition invalidUrlMessage :: string where
  "invalidUrlMessage = ''The configured iframe URL is invalid.''"

definition blockedMessage :: string where
  "blockedMessage = ''For security reasons, only content from configured domains can be displayed.''"

text \<open>\<open>settings?.security?.allowedIframeDomains\<close>, and the same with \<open>?? []\<close>.\<close>

definition allowedIframeDomainsOf :: "AppSettings \<Rightarrow> string list option" where
  "allowedIframeDomainsOf settings =
     (case security settings of None \<Rightarrow> None | Some sec \<Rightarrow> allowedIframeDomains sec)"

definition allowedDomainsOf :: "AppSettings \<Rightarrow> string list" where
  "allowedDomainsOf settings =
     (case allowedIframeDomainsOf settings of None \<Rightarrow> [] | Some ds \<Rightarrow> ds)"

definition isAllowed :: "string list \<Rightarrow> string \<Rightarrow> bool" where
  "isAllowed allowedDomains host =
     list_ex (\<lambda>domain. host = domain \<or> endsWith host (''.'' @ domain)) allowedDomains"

definition isRelative :: "string \<Rightarrow> bool" where
  "isRelative url = (startsWith url ''/'' \<or> startsWith url ''./'')"

text \<open>\<open>mainPageParams.forEach((value, key) => finalUrl.searchParams.append(key, value))\<close>.\<close>

definition appendParams :: "(string \<times> string) list \<Rightarrow> URL \<Rightarrow> URL" where
  "appendParams mainPageParams finalUrl =
     foldl (\<lambda>u (key, val). u\<lparr>searchParams := searchParams u @ [(key, val)]\<rparr>)
       finalUrl mainPageParams"

definition PageContent_effect ::
  "Window \<Rightarrow> AppSettings \<Rightarrow> string option \<Rightarrow> string \<Rightarrow> PageState \<Rightarrow> PageState" where
  "PageContent_effect w settings configuredUrl iframeHash st =
     (case configuredUrl of
        None \<Rightarrow> st\<lparr>finalIframeUrl := None, securityError := None, isIframeLoading := False\<rparr>
      | Some url \<Rightarrow>
          if url = [] then
            st\<lparr>finalIframeUrl := None, securityError := None, isIframeLoading := False\<rparr>
          else
            (case newURL w url (location_origin w) of
               None \<Rightarrow>
                 st\<lparr>securityError := Some invalidUrlMessage, finalIframeUrl := None,
                    isIframeLoading := False\<rparr>
             | Some finalUrl \<Rightarrow>
                 if \<not> isRelative url \<and>
                    \<not> isAllowed (allowedDomainsOf settings) (hostname finalUrl)
                 then
                   st\<lparr>securityError := Some blockedMessage, finalIframeUrl := None,
                      isIframeLoading := False\<rparr>
                 else
                   (let withParams =
                          appendParams (newURLSearchParams w (location_search w)) finalUrl;
                        withHash =
                          (if iframeHash \<noteq> [] then withParams\<lparr>hash := iframeHash\<rparr>
                           else withParams)
                    in st\<lparr>isIframeLoading := True,
                          finalIframeUrl := Some (toString w withHash),
                          securityError := None\<rparr>)))"

text \<open>What \<open>PageContent\<close> returns for a state (lines 155 to 191).\<close>

datatype View =
    ContentBlocked string
  | IframeView string string bool
  | Welcome string

definition iframeTitle :: "NavLink option \<Rightarrow> string" where
  "iframeTitle activeItem =
     (case activeItem of
        None \<Rightarrow> ''Content''
      | Some l \<Rightarrow> if label l \<noteq> [] then label l else ''Content'')"

definition PageContent_render :: "AppSettings \<Rightarrow> string \<Rightarrow> PageState \<Rightarrow> View" where
  "PageContent_render settings locHash st =
     (if truthy (securityError st) then
        (case securityError st of Some e \<Rightarrow> ContentBlocked e | None \<Rightarrow> Welcome locHash)
      else if truthy (finalIframeUrl st) then
        (case finalIframeUrl st of
           Some src \<Rightarrow>
             IframeView src (iframeTitle (activeItemOf (PageContent_match settings locHash)))
               (isIframeLoading st)
         | None \<Rightarrow> Welcome locHash)
      else Welcome locHash)"

section \<open>PageContent as a component: mounting, hash changes, the frame's load event\<close>

text \<open>
  The dependency array of the effect:
  \<open>[iframeUrl, iframeHash, settings?.security?.allowedIframeDomains]\<close>. The effect runs
  after the first render and after every render in which a dependency differs from the
  last run's. The settings, the origin and the query string do not change while the page
  is loaded; the hash does (\<open>useLocation\<close>).
\<close>

type_synonym Deps = "string option \<times> string \<times> string list option"

definition PageContent_deps :: "AppSettings \<Rightarrow> string \<Rightarrow> Deps" where
  "PageContent_deps settings locHash =
     (iframeUrlOf (PageContent_match settings locHash),
      iframeHashOf (PageContent_match settings locHash),
      allowedIframeDomainsOf settings)"

definition PageContent_runEffect ::
  "Window \<Rightarrow> AppSettings \<Rightarrow> string \<Rightarrow> PageState \<Rightarrow> PageState" where
  "PageContent_runEffect w settings locHash st =
     PageContent_effect w settings (iframeUrlOf (PageContent_match settings locHash))
       (iframeHashOf (PageContent_match settings locHash)) st"

record Page =
  curHash :: string
  state :: PageState
  effectDeps :: Deps

definition initialPageState :: PageState where
  "initialPageState = \<lparr>finalIframeUrl = None, securityError = None, isIframeLoading = False\<rparr>"

definition PageContent_mount :: "Window \<Rightarrow> AppSettings \<Rightarrow> string \<Rightarrow> Page" where
  "PageContent_mount w settings locHash =
     \<lparr>curHash = locHash,
      state = PageContent_runEffect w settings locHash initialPageState,
      effectDeps = PageContent_deps settings locHash\<rparr>"

datatype PageEvent = HashChange string | IframeLoad

fun PageContent_step :: "Window \<Rightarrow> AppSettings \<Rightarrow> Page \<Rightarrow> PageEvent \<Rightarrow> Page" where
  "PageContent_step w settings p (HashChange h) =
     (if PageContent_deps settings h = effectDeps p then p\<lparr>curHash := h\<rparr>
      else \<lparr>curHash = h,
            state = PageContent_runEffect w settings h (state p),
            effectDeps = PageContent_deps settings h\<rparr>)"
| "PageContent_step w settings p IframeLoad =
     (if \<not> truthy (securityError (state p)) \<and> truthy (finalIframeUrl (state p))
      then p\<lparr>state := (state p)\<lparr>isIframeLoading := False\<rparr>\<rparr>
      else p)"

definition PageContent_run ::
  "Window \<Rightarrow> AppSettings \<Rightarrow> string \<Rightarrow> PageEvent list \<Rightarrow> Page" where
  "PageContent_run w settings locHash events =
     foldl (PageContent_step w settings) (PageContent_mount w settings locHash) events"

section \<open>The sidebar (components/Sidebar.tsx)\<close>

text \<open>
  A \<open>Set<string>\<close> keeps its elements in insertion order, each once; it is modelled as
  the list \<open>Array.from\<close> gives for it. \<open>add\<close> appends an absent element, \<open>delete\<close>
  removes the element.
\<close>

type_synonym StringSet = "string list"

definition Set_has :: "StringSet \<Rightarrow> string \<Rightarrow> bool" where
  "Set_has s x = (x \<in> set s)"

definition Set_add :: "StringSet \<Rightarrow> string \<Rightarrow> StringSet" where
  "Set_add s x = (if x \<in> set s then s else s @ [x])"

definition Set_delete :: "StringSet \<Rightarrow> string \<Rightarrow> StringSet" where
  "Set_delete s x = removeAll x s"

text \<open>The updater \<open>toggleSubmenu\<close> passes to \<open>setOpenSubmenus\<close>: from \<open>prev\<close> to the new set.\<close>

definition toggleSubmenu :: "string \<Rightarrow> StringSet \<Rightarrow> StringSet" where
  "toggleSubmenu path prev =
     (let newSet = prev in
      if Set_has newSet path then Set_delete newSet path else Set_add newSet path)"

text \<open>Decimal digits of an array index, for the template string of a key.\<close>

fun showNat :: "nat \<Rightarrow> string" where
  "showNat n =
     (if n < 10 then [char_of (48 + n)]
      else showNat (n div 10) @ [char_of (48 + n mod 10)])"

text \<open>
  The props of one \<open>SidebarItem\<close>. \<open>onToggle\<close> is the path its callback toggles, or
  \<open>None\<close> for \<open>undefined\<close>.
\<close>

record SidebarItemProps =
  key :: string
  item :: NavItem
  isOpen :: bool
  onToggle :: "string option"

fun sidebarItem :: "StringSet \<Rightarrow> nat \<times> NavItem \<Rightarrow> SidebarItemProps" where
  "sidebarItem openSubmenus (index, Submenu t i path children) =
     \<lparr>key = path, item = Submenu t i path children,
      isOpen = Set_has openSubmenus path, onToggle = Some path\<rparr>"
| "sidebarItem openSubmenus (index, Link l) =
     \<lparr>key = label l @ ''-'' @ showNat index, item = Link l, isOpen = False, onToggle = None\<rparr>"
| "sidebarItem openSubmenus (index, Header t) =
     \<lparr>key = t @ ''-'' @ showNat index, item = Header t, isOpen = False, onToggle = None\<rparr>"

text \<open>The children of \<open>nav\<close>: \<open>settings.navItems.map((item, index) => ...)\<close>.\<close>

definition Sidebar_nav :: "SidebarSettings \<Rightarrow> StringSet \<Rightarrow> SidebarItemProps list" where
  "Sidebar_nav settings openSubmenus =
     map (sidebarItem openSubmenus) (enumerate 0 (navItems settings))"

section \<open>Writes to localStorage\<close>

type_synonym Storage = "string \<rightharpoonup> string"

definition setItem :: "string \<Rightarrow> string \<Rightarrow> Storage \<Rightarrow> Storage" where
  "setItem k v ls = ls(k \<mapsto> v)"

text \<open>The effect of \<open>AppLayout\<close> with dependencies \<open>[isExpanded, isMobile]\<close> (lines 220 to 224).\<close>

definition AppLayout_persist :: "bool \<Rightarrow> bool \<Rightarrow> Storage \<Rightarrow> Storage" where
  "AppLayout_persist isMobile isExpanded ls =
     (if \<not> isMobile
      then setItem ''sidebarState'' (if isExpanded then ''expanded'' else ''collapsed'') ls
      else ls)"

text \<open>The effect of \<open>Sidebar\<close> with dependency \<open>[openSubmenus]\<close>.\<close>

definition Sidebar_persist :: "Window \<Rightarrow> StringSet \<Rightarrow> Storage \<Rightarrow> Storage" where
  "Sidebar_persist w openSubmenus ls = setItem ''openSubmenus'' (JSON_stringify w openSubmenus) ls"

text \<open>
  A run of one of the two effects, with the values its closure holds. These two effects
  hold the only calls of \<open>localStorage.setItem\<close> in the three source files; whatever the
  user does, the storage changes by a sequence of such runs.
\<close>

datatype StorageWrite =
    PersistSidebarState bool bool
  | PersistOpenSubmenus StringSet

fun runWrite :: "Window \<Rightarrow> Storage \<Rightarrow> StorageWrite \<Rightarrow> Storage" where
  "runWrite w ls (PersistSidebarState isMobile isExpanded) = AppLayout_persist isMobile isExpanded ls"
| "runWrite w ls (PersistOpenSubmenus openSubmenus) = Sidebar_persist w openSubmenus ls"

definition runWrites :: "Window \<Rightarrow> StorageWrite list \<Rightarrow> Storage \<Rightarrow> Storage" where
  "runWrites w writes ls = foldl (runWrite w) ls writes"

section \<open>The settings provider (contexts/SettingsContext.tsx)\<close>

text \<open>
  What \<open>fetch('/settings.json')\<close> and \<open>response.json()\<close> come to: the request fails, or
  a response arrives with its \<open>ok\<close> flag, its status and the parsed body (\<open>None\<close> when
  parsing throws).
\<close>

datatype FetchOutcome =
    FetchFailed
  | Response bool nat "AppSettings option"

record SettingsContext =
  settings :: "AppSettings option"
  loading :: bool

definition initialSettingsContext :: SettingsContext where
  "initialSettingsContext = \<lparr>settings = None, loading = True\<rparr>"

text \<open>
  \<open>fetchSettings\<close>, run once by the provider's effect. The window is the page the provider
  runs in; the function never reads it.
\<close>

definition fetchSettings :: "Window \<Rightarrow> FetchOutcome \<Rightarrow> SettingsContext \<Rightarrow> SettingsContext" where
  "fetchSettings w outcome ctx =
     (case outcome of
        FetchFailed \<Rightarrow> ctx\<lparr>loading := False\<rparr>
      | Response ok status body \<Rightarrow>
          if \<not> ok then ctx\<lparr>loading := False\<rparr>
          else (case body of
                  None \<Rightarrow> ctx\<lparr>loading := False\<rparr>
                | Some data \<Rightarrow> ctx\<lparr>settings := Some data, loading := False\<rparr>))"

definition SettingsProvider :: "Window \<Rightarrow> FetchOutcome \<Rightarrow> SettingsContext" where
  "SettingsProvider w outcome = fetchSettings w outcome initialSettingsContext"

section \<open>Notions the specification uses\<close>

text \<open>The nav links of the configuration, in the order the loop visits them: a top-level
  link, or the children of a submenu.\<close>

fun linksOf :: "NavItem \<Rightarrow> NavLink list" where
  "linksOf (Link l) = [l]"
| "linksOf (Header t) = []"
| "linksOf (Submenu t i p children) = children"

definition navLinks :: "NavItem list \<Rightarrow> NavLink list" where
  "navLinks items = concat (map linksOf items)"

text \<open>A link matches a hash: the hash is the link's href, or the href followed by
  \<open>#\<close> and anything.\<close>

definition matchesHash :: "string \<Rightarrow> NavLink \<Rightarrow> bool" where
  "matchesHash h l = (h = href l \<or> take (Suc (length (href l))) h = href l @ ''#'')"

text \<open>A result of the search is the best of a list of links: nothing when no link matches;
  otherwise a matching link with the rest of the hash, longer than every matching link
  before it and at least as long as every matching link after it.\<close>

definition bestOf :: "string \<Rightarrow> NavLink list \<Rightarrow> Match option \<Rightarrow> bool" where
  "bestOf h ls res =
     (case res of
        None \<Rightarrow> \<forall>l \<in> set ls. \<not> matchesHash h l
      | Some (l, r) \<Rightarrow>
          matchesHash h l \<and> r = drop (length (href l)) h \<and>
          (\<exists>before after. ls = before @ l # after \<and>
             (\<forall>l' \<in> set before. matchesHash h l' \<longrightarrow> length (href l') < length (href l)) \<and>
             (\<forall>l' \<in> set after. matchesHash h l' \<longrightarrow> length (href l') \<le> length (href l))))"

text \<open>An entry that decides the default href, and the href it gives.\<close>

fun linkable :: "NavItem \<Rightarrow> bool" where
  "linkable (Link l) = True"
| "linkable (Submenu t i p (c # cs)) = True"
| "linkable other = False"

fun entryHref :: "NavItem \<Rightarrow> string" where
  "entryHref (Link l) = href l"
| "entryHref (Submenu t i p (c # cs)) = href c"
| "entryHref other = ''#/''"

text \<open>The default href in the words of the specification: the first entry of type link if
  there is one, otherwise the first child of the first submenu that has children,
  otherwise \<open>#/\<close>.\<close>

fun firstLink :: "NavItem list \<Rightarrow> NavLink option" where
  "firstLink [] = None"
| "firstLink (Link l # items) = Some l"
| "firstLink (other # items) = firstLink items"

fun firstSubmenuChild :: "NavItem list \<Rightarrow> NavLink option" where
  "firstSubmenuChild [] = None"
| "firstSubmenuChild (Submenu t i p (c # cs) # items) = Some c"
| "firstSubmenuChild (other # items) = firstSubmenuChild items"

definition spec_defaultHref :: "NavItem list \<Rightarrow> string" where
  "spec_defaultHref items =
     (case firstLink items of
        Some l \<Rightarrow> href l
      | None \<Rightarrow> (case firstSubmenuChild items of Some c \<Rightarrow> href c | None \<Rightarrow> ''#/''))"

text \<open>The override the README documents for the settings provider: a query parameter named
  like a key of \<open>theme\<close> replaces that key's value, a parameter \<open>logoUrl\<close> replaces the
  logo; the first parameter of a name counts (\<open>URLSearchParams.get\<close>).\<close>

definition spec_override :: "(string \<times> string) list \<Rightarrow> AppSettings \<Rightarrow> AppSettings" where
  "spec_override params data =
     data\<lparr>theme := map (\<lambda>(k, v). (k, case map_of params k of Some v' \<Rightarrow> v' | None \<Rightarrow> v))
                     (theme data),
          sidebar := (sidebar data)\<lparr>logoUrl :=
                     (case map_of params ''logoUrl'' of
                        Some v' \<Rightarrow> v' | None \<Rightarrow> logoUrl (sidebar data))\<rparr>\<rparr>"

text \<open>The string the frame gets for a resolved URL \<open>u\<close> and a residual hash \<open>r\<close>: the
  page's query pairs behind the URL's own, the residual as hash unless it is empty.\<close>

definition embedded :: "Window \<Rightarrow> URL \<Rightarrow> string \<Rightarrow> string" where
  "embedded w u r =
     toString w (u\<lparr>searchParams := searchParams u @ newURLSearchParams w (location_search w),
                  hash := (if r = [] then hash u else r)\<rparr>)"

text \<open>A page is settled when its stored dependencies are those of its current hash and its
  iframe URL and security error are what the effect computes for that hash.\<close>

definition settled :: "Window \<Rightarrow> AppSettings \<Rightarrow> Page \<Rightarrow> bool" where
  "settled w cfg p \<longleftrightarrow>
     effectDeps p = PageContent_deps cfg (curHash p) \<and>
     finalIframeUrl (state p) =
       finalIframeUrl (PageContent_runEffect w cfg (curHash p) initialPageState) \<and>
     securityError (state p) =
       securityError (PageContent_runEffect w cfg (curHash p) initialPageState)"

section \<open>A configuration and a browser for evaluation\<close>

definition linkA :: NavLink where
  "linkA = \<lparr>href = ''#/a'', label = ''A'', icon = ''home'', iframeUrl = Some ''/reports.html''\<rparr>"

definition linkAB :: NavLink where
  "linkAB = \<lparr>href = ''#/ab'', label = ''AB'', icon = ''file'', iframeUrl = None\<rparr>"

definition linkA_B :: NavLink where
  "linkA_B = \<lparr>href = ''#/a#b'', label = ''A-B'', icon = ''file'',
              iframeUrl = Some ''https://app.mypancho.com/home?tab=1#top''\<rparr>"

definition linkEvil :: NavLink where
  "linkEvil = \<lparr>href = ''#/x'', label = ''X'', icon = ''file'',
               iframeUrl = Some ''https://evil.example/x''\<rparr>"

definition linkCdn :: NavLink where
  "linkCdn = \<lparr>href = ''#/cdn'', label = ''Cdn'', icon = ''file'',
              iframeUrl = Some ''//cdn.other.example/widget''\<rparr>"

definition linkBadPort :: NavLink where
  "linkBadPort = \<lparr>href = ''#/bad'', label = ''Bad'', icon = ''file'',
                  iframeUrl = Some ''//reports.example:99999/''\<rparr>"

definition exampleNav :: "NavItem list" where
  "exampleNav =
     [Header ''Main'',
      Submenu ''Empty'' ''folder'' ''empty'' [],
      Submenu ''Group'' ''folder'' ''grp'' [linkAB, linkA_B],
      Link linkA, Link linkEvil, Link linkCdn, Link linkBadPort]"

definition exampleSettings :: AppSettings where
  "exampleSettings =
     \<lparr>theme = [(''primary'', ''hsl(220, 13%, 61%)''), (''border'', ''hsl(0, 0%, 90%)'')],
      security = Some \<lparr>allowedIframeDomains = Some [''mypancho.com'']\<rparr>,
      sidebar = \<lparr>defaultState = ''expanded'', logoUrl = ''/logo.svg'', navItems = exampleNav\<rparr>\<rparr>"

text \<open>
  A stand-in for the browser on the page \<open>https://dash.example/?primary=red&lang=en\<close>.
  Its \<open>URL\<close> constructor knows the URLs of the configuration above and gives for each
  what a browser gives: a path resolved against the origin, a protocol-relative URL with
  the origin's scheme, an absolute URL as it is, and no URL for a port above 65535. Its
  serializer and its \<open>JSON.stringify\<close> write values that need no escaping.
\<close>

definition exampleNewURL :: "string \<Rightarrow> string \<Rightarrow> URL option" where
  "exampleNewURL url base =
     (if base \<noteq> ''https://dash.example'' then None
      else if url = ''/reports.html'' then
        Some \<lparr>protocol = ''https:'', hostname = ''dash.example'', port = [],
              pathname = ''/reports.html'', searchParams = [], hash = []\<rparr>
      else if url = ''//cdn.other.example/widget'' then
        Some \<lparr>protocol = ''https:'', hostname = ''cdn.other.example'', port = [],
              pathname = ''/widget'', searchParams = [], hash = []\<rparr>
      else if url = ''https://app.mypancho.com/home?tab=1#top'' then
        Some \<lparr>protocol = ''https:'', hostname = ''app.mypancho.com'', port = [],
              pathname = ''/home'', searchParams = [(''tab'', ''1'')], hash = ''#top''\<rparr>
      else if url = ''https://evil.example/x'' then
        Some \<lparr>protocol = ''https:'', hostname = ''evil.example'', port = [],
              pathname = ''/x'', searchParams = [], hash = []\<rparr>
      else None)"

fun joinWith :: "string \<Rightarrow> string list \<Rightarrow> string" where
  "joinWith sep [] = []"
| "joinWith sep [x] = x"
| "joinWith sep (x # y # ys) = x @ sep @ joinWith sep (y # ys)"

definition exampleToString :: "URL \<Rightarrow> string" where
  "exampleToString u =
     protocol u @ ''//'' @ hostname u @ (if port u = [] then [] else '':'' @ port u) @
     pathname u @
     (if searchParams u = [] then []
      else ''?'' @ joinWith ''&'' (map (\<lambda>(k, v). k @ ''='' @ v) (searchParams u))) @
     hash u"

definition exampleWindow :: Window where
  "exampleWindow =
     \<lparr>location_origin = ''https://dash.example'',
      location_search = ''?primary=red&lang=en'',
      newURL = exampleNewURL,
      newURLSearchParams =
        (\<lambda>q. if q = ''?primary=red&lang=en'' then [(''primary'', ''red''), (''lang'', ''en'')]
             else []),
      toString = exampleToString,
      JSON_stringify =
        (\<lambda>xs. ''['' @ joinWith '','' (map (\<lambda>x. [CHR 0x22] @ x @ [CHR 0x22]) xs) @ '']'')\<rparr>"

section \<open>Route resolution: what findNavItemByHref returns\<close>

lemma startsWith_append: "startsWith s p \<longleftrightarrow> (\<exists>r. s = p @ r)"
  unfolding startsWith_def
  by (metis append_eq_conv_conj append_take_drop_id)

lemma matchesHash_startsWith: "matchesHash h l \<Longrightarrow> startsWith h (href l)"
proof -
  assume "matchesHash h l"
  then consider "h = href l" | "take (Suc (length (href l))) h = href l @ ''#''"
    by (auto simp: matchesHash_def)
  then show ?thesis
  proof cases
    case 1
    then show ?thesis by (simp add: startsWith_def)
  next
    case 2
    have "take (length (href l)) h = take (length (href l)) (take (Suc (length (href l))) h)"
      by (simp add: min_def)
    also have "\<dots> = href l" unfolding 2 by simp
    finally show ?thesis by (simp add: startsWith_def)
  qed
qed

lemma matchesHash_code:
  "matchesHash h l \<longleftrightarrow>
     startsWith h (href l) \<and>
     (charAt h (length (href l)) = None \<or> charAt h (length (href l)) = Some CHR ''#'')"
proof (cases "startsWith h (href l)")
  case False
  then show ?thesis using matchesHash_startsWith by blast
next
  case True
  then obtain r where h: "h = href l @ r" by (auto simp: startsWith_append)
  show ?thesis
    using True unfolding matchesHash_def charAt_def h
    by (cases r) (auto simp: nth_append)
qed

lemma checkItem_alt:
  "checkItem h bm l =
     (if matchesHash h l \<and> (case bm of None \<Rightarrow> True | Some m \<Rightarrow> length (href (fst m)) < length (href l))
      then Some (l, drop (length (href l)) h) else bm)"
  by (auto simp: checkItem_def matchesHash_code Let_def substring_def split: option.splits)

lemma visitItem_linksOf: "visitItem h bm x = foldl (checkItem h) bm (linksOf x)"
  by (cases x) simp_all

lemma findNavItemByHref_navLinks:
  "findNavItemByHref items h = foldl (checkItem h) None (navLinks items)"
proof -
  have "foldl (visitItem h) bm items = foldl (checkItem h) bm (navLinks items)" for bm
    by (induction items arbitrary: bm) (simp_all add: navLinks_def visitItem_linksOf)
  then show ?thesis by (simp add: findNavItemByHref_def)
qed

lemma checkItem_None: "checkItem h None l = (if matchesHash h l then Some (l, drop (length (href l)) h) else None)"
  by (simp add: checkItem_alt)

lemma checkItem_Some:
  "checkItem h (Some (l0, r0)) l =
     (if matchesHash h l \<and> length (href l0) < length (href l)
      then Some (l, drop (length (href l)) h) else Some (l0, r0))"
  by (simp add: checkItem_alt)

lemma bestOf_NoneI: "\<forall>l \<in> set ls. \<not> matchesHash h l \<Longrightarrow> bestOf h ls None"
  by (simp add: bestOf_def)

lemma bestOf_SomeI:
  "matchesHash h l \<Longrightarrow> ls = before @ l # after \<Longrightarrow>
   \<forall>l' \<in> set before. matchesHash h l' \<longrightarrow> length (href l') < length (href l) \<Longrightarrow>
   \<forall>l' \<in> set after. matchesHash h l' \<longrightarrow> length (href l') \<le> length (href l) \<Longrightarrow>
   bestOf h ls (Some (l, drop (length (href l)) h))"
  unfolding bestOf_def by (simp only: option.case prod.case) blast

lemma foldl_checkItem_best: "bestOf h ls (foldl (checkItem h) None ls)"
proof (induction ls rule: rev_induct)
  case Nil
  show ?case by (simp add: bestOf_def)
next
  case (snoc x xs)
  have step: "foldl (checkItem h) None (xs @ [x]) = checkItem h (foldl (checkItem h) None xs) x"
    by simp
  show ?case
  proof (cases "foldl (checkItem h) None xs")
    case None
    with snoc have no: "\<forall>l \<in> set xs. \<not> matchesHash h l" by (simp add: bestOf_def)
    show ?thesis
    proof (cases "matchesHash h x")
      case True
      have "bestOf h (xs @ [x]) (Some (x, drop (length (href x)) h))"
        by (rule bestOf_SomeI[where before = xs and after = "[]"]) (use True no in auto)
      then show ?thesis unfolding step None by (simp add: checkItem_None True)
    next
      case False
      have "bestOf h (xs @ [x]) None"
        by (rule bestOf_NoneI) (use False no in auto)
      then show ?thesis unfolding step None by (simp add: checkItem_None False)
    qed
  next
    case (Some m)
    obtain l r where m: "m = (l, r)" by (cases m)
    from snoc[unfolded Some m] obtain before after where
      ml: "matchesHash h l" and r: "r = drop (length (href l)) h"
      and xs: "xs = before @ l # after"
      and b: "\<forall>l' \<in> set before. matchesHash h l' \<longrightarrow> length (href l') < length (href l)"
      and a: "\<forall>l' \<in> set after. matchesHash h l' \<longrightarrow> length (href l') \<le> length (href l)"
      unfolding bestOf_def by (simp only: option.case prod.case) blast
    show ?thesis
    proof (cases "matchesHash h x \<and> length (href l) < length (href x)")
      case True
      have all: "\<forall>l' \<in> set xs. matchesHash h l' \<longrightarrow> length (href l') < length (href x)"
        using True ml a b xs by fastforce
      have "bestOf h (xs @ [x]) (Some (x, drop (length (href x)) h))"
        by (rule bestOf_SomeI[where before = xs and after = "[]"]) (use True all in auto)
      then show ?thesis unfolding step Some m using True by (simp add: checkItem_Some)
    next
      case False
      have "bestOf h (xs @ [x]) (Some (l, drop (length (href l)) h))"
        by (rule bestOf_SomeI[where before = before and after = "after @ [x]"])
           (use ml xs a b False in auto)
      moreover have "checkItem h (Some (l, r)) x = Some (l, drop (length (href l)) h)"
        using False r by (auto simp: checkItem_Some)
      ultimately show ?thesis unfolding step Some m by simp
    qed
  qed
qed


text \<open>
  C3. A link matches the current hash when the hash is its href or continues it with
  \<open>#\<close>. \<open>findNavItemByHref\<close> is undefined exactly when no link matches; otherwise it
  returns a matching link and the rest of the hash behind its href, no matching link is
  longer, a matching link with another href is strictly shorter, and every matching link
  before it in the configuration is strictly shorter.
\<close>

theorem findNavItemByHref_resolves:
  "(findNavItemByHref items h = None \<longleftrightarrow> (\<forall>l \<in> set (navLinks items). \<not> matchesHash h l)) \<and>
   (\<forall>l r. findNavItemByHref items h = Some (l, r) \<longrightarrow>
      l \<in> set (navLinks items) \<and> matchesHash h l \<and> h = href l @ r \<and>
      (\<forall>l' \<in> set (navLinks items). matchesHash h l' \<longrightarrow>
         length (href l') \<le> length (href l) \<and> (href l' \<noteq> href l \<longrightarrow> length (href l') < length (href l))) \<and>
      (\<exists>before after. navLinks items = before @ l # after \<and>
         (\<forall>l' \<in> set before. matchesHash h l' \<longrightarrow> length (href l') < length (href l))))"
proof -
  let ?ls = "navLinks items"
  have best: "bestOf h ?ls (findNavItemByHref items h)"
    by (simp add: findNavItemByHref_navLinks foldl_checkItem_best)
  have none: "findNavItemByHref items h = None \<longleftrightarrow> (\<forall>l \<in> set ?ls. \<not> matchesHash h l)"
  proof (cases "findNavItemByHref items h")
    case None
    with best show ?thesis by (simp add: bestOf_def)
  next
    case (Some m)
    with best show ?thesis by (cases m) (auto simp: bestOf_def)
  qed
  have some: "l \<in> set ?ls \<and> matchesHash h l \<and> h = href l @ r \<and>
      (\<forall>l' \<in> set ?ls. matchesHash h l' \<longrightarrow>
         length (href l') \<le> length (href l) \<and> (href l' \<noteq> href l \<longrightarrow> length (href l') < length (href l))) \<and>
      (\<exists>before after. ?ls = before @ l # after \<and>
         (\<forall>l' \<in> set before. matchesHash h l' \<longrightarrow> length (href l') < length (href l)))"
    if res: "findNavItemByHref items h = Some (l, r)" for l r
  proof -
    from best[unfolded res] obtain before after where
      ml: "matchesHash h l" and r: "r = drop (length (href l)) h"
      and ls: "?ls = before @ l # after"
      and b: "\<forall>l' \<in> set before. matchesHash h l' \<longrightarrow> length (href l') < length (href l)"
      and a: "\<forall>l' \<in> set after. matchesHash h l' \<longrightarrow> length (href l') \<le> length (href l)"
      unfolding bestOf_def by (simp only: option.case prod.case) blast
    have hr: "h = href l @ r"
      using matchesHash_startsWith[OF ml] r by (metis append_take_drop_id startsWith_def)
    have le: "length (href l') \<le> length (href l)" if "l' \<in> set ?ls" "matchesHash h l'" for l'
      using that a b unfolding ls by fastforce
    have lt: "length (href l') < length (href l)"
      if "l' \<in> set ?ls" "matchesHash h l'" "href l' \<noteq> href l" for l'
    proof -
      have "take (length (href l')) h = href l'"
        using matchesHash_startsWith[OF that(2)] by (simp add: startsWith_def)
      moreover have "take (length (href l)) h = href l"
        using matchesHash_startsWith[OF ml] by (simp add: startsWith_def)
      ultimately have "length (href l') \<noteq> length (href l)" using that(3) by metis
      with le[OF that(1,2)] show ?thesis by simp
    qed
    show ?thesis using ml hr le lt ls b by auto
  qed
  show ?thesis using none some by blast
qed


theorem findNavItemByHref_resolves_witness:
  "findNavItemByHref exampleNav ''#/a#b#c'' = Some (linkA_B, ''#c'') \<and>
   linkA \<in> set (navLinks exampleNav) \<and> matchesHash ''#/a#b#c'' linkA \<and>
   length (href linkA) < length (href linkA_B) \<and>
   linkA_B \<in> set (navLinks exampleNav) \<and> ''#/a#b#c'' = href linkA_B @ ''#c''"
proof -
  have res: "findNavItemByHref exampleNav ''#/a#b#c'' = Some (linkA_B, ''#c'')"
    by (simp add: exampleNav_def findNavItemByHref_def checkItem_def startsWith_def charAt_def
          substring_def linkA_def linkAB_def linkA_B_def linkEvil_def linkCdn_def linkBadPort_def)
  have mem: "linkA \<in> set (navLinks exampleNav)"
    by (simp add: exampleNav_def navLinks_def)
  have m: "matchesHash ''#/a#b#c'' linkA"
    by (simp add: matchesHash_def linkA_def)
  have ne: "href linkA \<noteq> href linkA_B"
    by (simp add: linkA_def linkA_B_def)
  from findNavItemByHref_resolves[of exampleNav "''#/a#b#c''"] res mem m ne
  show ?thesis by blast
qed

subsection \<open>The default href\<close>

lemma findDefaultHref_skip:
  "\<forall>x \<in> set pre. \<not> linkable x \<Longrightarrow> findDefaultHref (pre @ rest) = findDefaultHref rest"
proof (induction pre)
  case Nil
  show ?case by simp
next
  case (Cons x pre)
  then have nx: "\<not> linkable x" and IH: "findDefaultHref (pre @ rest) = findDefaultHref rest"
    by simp_all
  from nx show ?case
  proof (cases x)
    case (Link l)
    with nx show ?thesis by simp
  next
    case (Header t)
    with IH show ?thesis by simp
  next
    case (Submenu t i p children)
    with nx have "children = []" by (cases children) simp_all
    with Submenu IH show ?thesis by simp
  qed
qed

lemma findDefaultHref_linkable: "linkable x \<Longrightarrow> findDefaultHref (x # rest) = entryHref x"
  by (cases x rule: linkable.cases) simp_all

text \<open>
  C6, as amended. For the hash \<open>#/\<close> the route is resolved with \<open>findDefaultHref\<close>, which
  scans \<open>navItems\<close> in order: the first entry that is a link or a submenu with children
  decides (a link gives its href, a submenu its first child's href); with no such entry
  the result is \<open>#/\<close>.
\<close>

theorem findDefaultHref_first_linkable:
  "routeHref items ''#/'' = findDefaultHref items \<and>
   PageContent_match cfg ''#/'' =
     findNavItemByHref (navItems (sidebar cfg)) (findDefaultHref (navItems (sidebar cfg))) \<and>
   (\<forall>pre x post. items = pre @ x # post \<and> (\<forall>y \<in> set pre. \<not> linkable y) \<and> linkable x \<longrightarrow>
      findDefaultHref items = entryHref x) \<and>
   ((\<forall>y \<in> set items. \<not> linkable y) \<longrightarrow> findDefaultHref items = ''#/'')"
proof -
  have a: "routeHref items ''#/'' = findDefaultHref items"
    by (simp add: routeHref_def)
  have b: "PageContent_match cfg ''#/'' =
     findNavItemByHref (navItems (sidebar cfg)) (findDefaultHref (navItems (sidebar cfg)))"
    by (simp add: PageContent_match_def routeHref_def)
  have c: "findDefaultHref items = entryHref x"
    if "items = pre @ x # post" "\<forall>y \<in> set pre. \<not> linkable y" "linkable x" for pre x post
    using that by (simp add: findDefaultHref_skip findDefaultHref_linkable)
  have d: "findDefaultHref items = ''#/''" if "\<forall>y \<in> set items. \<not> linkable y"
    using findDefaultHref_skip[OF that, of "[]"] by simp
  from a b c d show ?thesis by blast
qed

theorem findDefaultHref_first_linkable_witness:
  "findDefaultHref exampleNav = href linkAB \<and>
   exampleNav = [Header ''Main'', Submenu ''Empty'' ''folder'' ''empty'' []] @
      Submenu ''Group'' ''folder'' ''grp'' [linkAB, linkA_B] #
      [Link linkA, Link linkEvil, Link linkCdn, Link linkBadPort]"
proof -
  let ?pre = "[Header ''Main'', Submenu ''Empty'' ''folder'' ''empty'' []]"
  let ?x = "Submenu ''Group'' ''folder'' ''grp'' [linkAB, linkA_B]"
  let ?post = "[Link linkA, Link linkEvil, Link linkCdn, Link linkBadPort]"
  have split: "exampleNav = ?pre @ ?x # ?post" by (simp add: exampleNav_def)
  have pre: "\<forall>y \<in> set ?pre. \<not> linkable y" by simp
  have x: "linkable ?x" by simp
  from findDefaultHref_first_linkable[of exampleNav exampleSettings] split pre x
  have "findDefaultHref exampleNav = entryHref ?x" by blast
  with split show ?thesis by simp
qed

theorem findDefaultHref_first_link_counterexample:
  "firstLink exampleNav = Some linkA \<and> findDefaultHref exampleNav \<noteq> href linkA \<and>
   findDefaultHref exampleNav \<noteq> spec_defaultHref exampleNav"
  by (simp add: exampleNav_def spec_defaultHref_def linkA_def linkAB_def)

section \<open>The sidebar: toggling a submenu, rendering the navigation\<close>

lemma toggleSubmenu_set:
  "set (toggleSubmenu path prev) =
     (if path \<in> set prev then set prev - {path} else insert path (set prev))"
  by (simp add: toggleSubmenu_def Set_has_def Set_delete_def Set_add_def)

lemma toggleSubmenu_distinct: "distinct prev \<Longrightarrow> distinct (toggleSubmenu path prev)"
  by (simp add: toggleSubmenu_def Set_has_def Set_delete_def Set_add_def distinct_removeAll)

text \<open>
  C10. \<open>toggleSubmenu\<close> removes the path from the open set when it is there and adds it
  when it is not; toggling the same path twice gives the original set; membership of any
  other path is unchanged; and the result is again a set (no element twice).
\<close>

theorem toggleSubmenu_involution:
  "(Set_has prev path \<longrightarrow> set (toggleSubmenu path prev) = set prev - {path}) \<and>
   (\<not> Set_has prev path \<longrightarrow> set (toggleSubmenu path prev) = insert path (set prev)) \<and>
   set (toggleSubmenu path (toggleSubmenu path prev)) = set prev \<and>
   (\<forall>q. q \<noteq> path \<longrightarrow> Set_has (toggleSubmenu path prev) q = Set_has prev q) \<and>
   (distinct prev \<longrightarrow> distinct (toggleSubmenu path prev))"
proof -
  have twice: "set (toggleSubmenu path (toggleSubmenu path prev)) = set prev"
    by (auto simp: toggleSubmenu_set)
  have other: "Set_has (toggleSubmenu path prev) q = Set_has prev q" if "q \<noteq> path" for q
    using that by (auto simp: Set_has_def toggleSubmenu_set)
  show ?thesis
    using twice other toggleSubmenu_distinct[of prev path]
    by (simp add: toggleSubmenu_set Set_has_def)
qed

theorem toggleSubmenu_involution_witness:
  "Set_has [''grp'', ''more''] ''grp'' \<and>
   set (toggleSubmenu ''grp'' [''grp'', ''more'']) = {''more''} \<and>
   \<not> Set_has [''more''] ''grp'' \<and>
   set (toggleSubmenu ''grp'' [''more'']) = {''grp'', ''more''} \<and>
   set (toggleSubmenu ''grp'' (toggleSubmenu ''grp'' [''grp'', ''more''])) = {''grp'', ''more''} \<and>
   Set_has (toggleSubmenu ''grp'' [''grp'', ''more'']) ''more'' \<and>
   distinct (toggleSubmenu ''grp'' [''grp'', ''more''])"
proof -
  have h: "Set_has [''grp'', ''more''] ''grp''" and n: "\<not> Set_has [''more''] ''grp''"
    and m: "Set_has [''grp'', ''more''] ''more''" and d: "distinct [''grp'', ''more'']"
    and q: "''more'' \<noteq> ''grp''"
    by (simp_all add: Set_has_def)
  note T = toggleSubmenu_involution[of "[''grp'', ''more'']" "''grp''"]
  note U = toggleSubmenu_involution[of "[''more'']" "''grp''"]
  have a: "set (toggleSubmenu ''grp'' [''grp'', ''more'']) = set [''grp'', ''more''] - {''grp''}"
    using T h by (elim conjE) (erule (1) impE)
  have b: "set (toggleSubmenu ''grp'' (toggleSubmenu ''grp'' [''grp'', ''more''])) = set [''grp'', ''more'']"
    using T by (elim conjE)
  have c: "Set_has (toggleSubmenu ''grp'' [''grp'', ''more'']) ''more''"
    using T q m by (elim conjE) (erule allE[of _ "''more''"], erule impE, assumption, erule ssubst, assumption)
  have e: "distinct (toggleSubmenu ''grp'' [''grp'', ''more''])"
    using T d by (elim conjE) (erule (1) impE)
  have f: "set (toggleSubmenu ''grp'' [''more'']) = insert ''grp'' (set [''more''])"
    using U n by (elim conjE) (erule (1) impE)
  have a': "set [''grp'', ''more''] - {''grp''} = {''more''}" by simp
  have f': "insert ''grp'' (set [''more'']) = {''grp'', ''more''}" by simp
  have b': "set [''grp'', ''more''] = {''grp'', ''more''}" by simp
  show ?thesis
    using h n c e a[unfolded a'] b[unfolded b'] f[unfolded f'] by (intro conjI)
qed

lemma sidebarItem_item: "item (sidebarItem opens (i, x)) = x"
  by (cases x) simp_all

lemma sidebarItem_isOpen:
  "isOpen (sidebarItem opens (i, x)) =
     (case x of Submenu t ic p cs \<Rightarrow> p \<in> set opens | _ \<Rightarrow> False)"
  by (cases x) (simp_all add: Set_has_def)

text \<open>
  C9. The navigation of the sidebar has one \<open>SidebarItem\<close> for each entry of
  \<open>navItems\<close>, in the order of the array, each showing its entry; a submenu is open
  exactly when its path is in the set of open submenus, and no other entry is open.
\<close>

theorem Sidebar_nav_from_config:
  "length (Sidebar_nav s opens) = length (navItems s) \<and>
   map item (Sidebar_nav s opens) = navItems s \<and>
   (\<forall>i < length (navItems s).
      item (Sidebar_nav s opens ! i) = navItems s ! i \<and>
      isOpen (Sidebar_nav s opens ! i) =
        (case navItems s ! i of Submenu t ic p cs \<Rightarrow> p \<in> set opens | _ \<Rightarrow> False))"
proof -
  have len: "length (Sidebar_nav s opens) = length (navItems s)"
    by (simp add: Sidebar_nav_def)
  have nth: "Sidebar_nav s opens ! i = sidebarItem opens (i, navItems s ! i)"
    if "i < length (navItems s)" for i
    using that by (simp add: Sidebar_nav_def nth_enumerate_eq)
  have items: "map item (Sidebar_nav s opens) = navItems s"
    by (rule nth_equalityI) (simp_all add: len nth sidebarItem_item)
  show ?thesis
    using len items nth by (simp add: sidebarItem_item sidebarItem_isOpen)
qed

theorem Sidebar_nav_from_config_witness:
  "length (Sidebar_nav (sidebar exampleSettings) [''grp'']) = 7 \<and>
   map item (Sidebar_nav (sidebar exampleSettings) [''grp'']) = exampleNav \<and>
   isOpen (Sidebar_nav (sidebar exampleSettings) [''grp''] ! 2) \<and>
   \<not> isOpen (Sidebar_nav (sidebar exampleSettings) [''grp''] ! 1) \<and>
   \<not> isOpen (Sidebar_nav (sidebar exampleSettings) [''grp''] ! 3)"
proof -
  have nav: "navItems (sidebar exampleSettings) = exampleNav"
    by (simp add: exampleSettings_def)
  have l: "length exampleNav = 7" by (simp add: exampleNav_def)
  have i1: "exampleNav ! 1 = Submenu ''Empty'' ''folder'' ''empty'' []"
    and i2: "exampleNav ! 2 = Submenu ''Group'' ''folder'' ''grp'' [linkAB, linkA_B]"
    and i3: "exampleNav ! 3 = Link linkA"
    by (simp_all add: exampleNav_def)
  have b: "(1::nat) < 7" "(2::nat) < 7" "(3::nat) < 7" by simp_all
  from Sidebar_nav_from_config[of "sidebar exampleSettings" "[''grp'']", unfolded nav l] b
  have "length (Sidebar_nav (sidebar exampleSettings) [''grp'']) = 7"
    and "map item (Sidebar_nav (sidebar exampleSettings) [''grp'']) = exampleNav"
    and "isOpen (Sidebar_nav (sidebar exampleSettings) [''grp''] ! 1) =
      (case exampleNav ! 1 of Submenu t ic p cs \<Rightarrow> p \<in> set [''grp''] | _ \<Rightarrow> False)"
    and "isOpen (Sidebar_nav (sidebar exampleSettings) [''grp''] ! 2) =
      (case exampleNav ! 2 of Submenu t ic p cs \<Rightarrow> p \<in> set [''grp''] | _ \<Rightarrow> False)"
    and "isOpen (Sidebar_nav (sidebar exampleSettings) [''grp''] ! 3) =
      (case exampleNav ! 3 of Submenu t ic p cs \<Rightarrow> p \<in> set [''grp''] | _ \<Rightarrow> False)"
    by blast+
  then show ?thesis unfolding i1 i2 i3 by simp
qed

section \<open>What the persisting effects leave in localStorage\<close>

lemma AppLayout_persist_other: "k \<noteq> ''sidebarState'' \<Longrightarrow> AppLayout_persist m e ls k = ls k"
  by (simp add: AppLayout_persist_def setItem_def)

lemma Sidebar_persist_other: "k \<noteq> ''openSubmenus'' \<Longrightarrow> Sidebar_persist w s ls k = ls k"
  by (simp add: Sidebar_persist_def setItem_def)

lemma runWrite_other:
  "k \<noteq> ''sidebarState'' \<Longrightarrow> k \<noteq> ''openSubmenus'' \<Longrightarrow> runWrite w ls x k = ls k"
  by (cases x) (simp_all add: AppLayout_persist_other Sidebar_persist_other)

lemma runWrites_snoc: "runWrites w (xs @ [x]) ls = runWrite w (runWrites w xs ls) x"
  by (simp add: runWrites_def)

lemma runWrites_other:
  "k \<noteq> ''sidebarState'' \<Longrightarrow> k \<noteq> ''openSubmenus'' \<Longrightarrow> runWrites w xs ls k = ls k"
  by (induction xs rule: rev_induct) (simp_all add: runWrites_snoc runWrite_other, simp add: runWrites_def)

lemma runWrite_sidebarState:
  "runWrite w ls x ''sidebarState'' =
     (case x of
        PersistSidebarState m e \<Rightarrow>
          if m then ls ''sidebarState'' else Some (if e then ''expanded'' else ''collapsed'')
      | PersistOpenSubmenus s \<Rightarrow> ls ''sidebarState'')"
  by (cases x) (simp_all add: AppLayout_persist_def Sidebar_persist_def setItem_def)

lemma runWrite_openSubmenus:
  "runWrite w ls x ''openSubmenus'' =
     (case x of
        PersistSidebarState m e \<Rightarrow> ls ''openSubmenus''
      | PersistOpenSubmenus s \<Rightarrow> Some (JSON_stringify w s))"
  by (cases x) (simp_all add: AppLayout_persist_def Sidebar_persist_def setItem_def)

lemma runWrites_sidebarState:
  "runWrites w xs ls ''sidebarState'' = ls ''sidebarState'' \<or>
   runWrites w xs ls ''sidebarState'' = Some ''expanded'' \<or>
   runWrites w xs ls ''sidebarState'' = Some ''collapsed''"
proof (induction xs rule: rev_induct)
  case Nil
  show ?case by (simp add: runWrites_def)
next
  case (snoc x xs)
  then show ?case
    unfolding runWrites_snoc runWrite_sidebarState
    by (cases x) auto
qed

lemma runWrites_openSubmenus:
  "runWrites w xs ls ''openSubmenus'' = ls ''openSubmenus'' \<or>
   (\<exists>s. PersistOpenSubmenus s \<in> set xs \<and>
        runWrites w xs ls ''openSubmenus'' = Some (JSON_stringify w s))"
proof (induction xs rule: rev_induct)
  case Nil
  show ?case by (simp add: runWrites_def)
next
  case (snoc x xs)
  then show ?case
    unfolding runWrites_snoc runWrite_openSubmenus
    by (cases x) auto
qed

text \<open>
  C7. Whatever sequence of the two persisting effects runs: every key other than
  \<open>sidebarState\<close> and \<open>openSubmenus\<close> keeps its value; the effect of \<open>AppLayout\<close>
  writes nothing on mobile and otherwise stores \<open>expanded\<close> or \<open>collapsed\<close> under
  \<open>sidebarState\<close>, so that key holds its old value or one of the two words; the effect
  of \<open>Sidebar\<close> stores the JSON text of the array of the open submenus under
  \<open>openSubmenus\<close>, so that key holds its old value or the JSON text of a set the
  effect ran with, the last one after its run.
\<close>

theorem localStorage_writes:
  "(\<forall>k. k \<noteq> ''sidebarState'' \<and> k \<noteq> ''openSubmenus'' \<longrightarrow> runWrites w xs ls k = ls k) \<and>
   AppLayout_persist True e ls = ls \<and>
   AppLayout_persist False e ls = ls(''sidebarState'' \<mapsto> (if e then ''expanded'' else ''collapsed'')) \<and>
   Sidebar_persist w s ls = ls(''openSubmenus'' \<mapsto> JSON_stringify w s) \<and>
   (runWrites w xs ls ''sidebarState'' = ls ''sidebarState'' \<or>
    runWrites w xs ls ''sidebarState'' = Some ''expanded'' \<or>
    runWrites w xs ls ''sidebarState'' = Some ''collapsed'') \<and>
   (runWrites w xs ls ''openSubmenus'' = ls ''openSubmenus'' \<or>
    (\<exists>s'. PersistOpenSubmenus s' \<in> set xs \<and>
          runWrites w xs ls ''openSubmenus'' = Some (JSON_stringify w s'))) \<and>
   runWrites w (xs @ [PersistOpenSubmenus s]) ls ''openSubmenus'' = Some (JSON_stringify w s)"
proof -
  have other: "\<forall>k. k \<noteq> ''sidebarState'' \<and> k \<noteq> ''openSubmenus'' \<longrightarrow> runWrites w xs ls k = ls k"
    by (simp add: runWrites_other)
  have mob: "AppLayout_persist True e ls = ls"
    and desk: "AppLayout_persist False e ls =
      ls(''sidebarState'' \<mapsto> (if e then ''expanded'' else ''collapsed''))"
    by (simp_all add: AppLayout_persist_def setItem_def)
  have sub: "Sidebar_persist w s ls = ls(''openSubmenus'' \<mapsto> JSON_stringify w s)"
    by (simp add: Sidebar_persist_def setItem_def)
  have last: "runWrites w (xs @ [PersistOpenSubmenus s]) ls ''openSubmenus'' = Some (JSON_stringify w s)"
    by (simp add: runWrites_snoc Sidebar_persist_def setItem_def)
  from other mob desk sub runWrites_sidebarState[of w xs ls] runWrites_openSubmenus[of w xs ls] last
  show ?thesis by (intro conjI)
qed

theorem localStorage_writes_witness:
  "runWrites exampleWindow
     [PersistSidebarState False True, PersistOpenSubmenus [''grp''], PersistSidebarState True False]
     [''token'' \<mapsto> ''abc''] ''token'' = Some ''abc'' \<and>
   runWrites exampleWindow
     [PersistSidebarState False True, PersistOpenSubmenus [''grp''], PersistSidebarState True False]
     [''token'' \<mapsto> ''abc''] ''sidebarState'' = Some ''expanded''"
proof -
  let ?xs = "[PersistSidebarState False True, PersistOpenSubmenus [''grp''], PersistSidebarState True False]"
  let ?ls = "[''token'' \<mapsto> ''abc'']"
  have k: "''token'' \<noteq> ''sidebarState'' \<and> ''token'' \<noteq> ''openSubmenus''" by simp
  note T = localStorage_writes[of exampleWindow ?xs ?ls False "[]"]
  have "runWrites exampleWindow ?xs ?ls ''token'' = ?ls ''token''"
    by (rule mp[OF spec[OF conjunct1[OF T]] k])
  moreover have "?ls ''token'' = Some ''abc''" by simp
  moreover have "runWrites exampleWindow ?xs ?ls ''sidebarState'' = Some ''expanded''"
    by (simp add: runWrites_def AppLayout_persist_def Sidebar_persist_def setItem_def)
  ultimately show ?thesis by simp
qed

section \<open>The settings provider and the query string\<close>

lemma SettingsProvider_stores_file:
  "settings (SettingsProvider w (Response True status (Some data))) = Some data"
  by (simp add: SettingsProvider_def fetchSettings_def)

text \<open>
  C2, on the code. On the page \<open>https://dash.example/?primary=red&lang=en\<close>, with a
  settings file whose theme has the key \<open>primary\<close>, the provider stores the file as it
  is: \<open>primary\<close> keeps the file's value, and the stored settings differ from the file
  with the documented override applied.
\<close>

theorem SettingsProvider_ignores_query:
  "map_of (newURLSearchParams exampleWindow (location_search exampleWindow)) ''primary'' = Some ''red'' \<and>
   settings (SettingsProvider exampleWindow (Response True 200 (Some exampleSettings))) =
     Some exampleSettings \<and>
   map_of (theme exampleSettings) ''primary'' = Some ''hsl(220, 13%, 61%)'' \<and>
   map_of (theme (spec_override (newURLSearchParams exampleWindow (location_search exampleWindow))
                    exampleSettings)) ''primary'' = Some ''red''"
  by (simp add: SettingsProvider_def fetchSettings_def exampleWindow_def exampleSettings_def
        spec_override_def initialSettingsContext_def)

section \<open>The content effect: allow-list, query parameters, hash\<close>

lemma endsWith_iff: "endsWith s p \<longleftrightarrow> (\<exists>q. s = q @ p)"
proof
  assume "endsWith s p"
  then have "s = take (length s - length p) s @ p"
    by (metis append_take_drop_id endsWith_def)
  then show "\<exists>q. s = q @ p" ..
next
  assume "\<exists>q. s = q @ p"
  then show "endsWith s p" by (auto simp: endsWith_def)
qed

lemma isAllowed_iff:
  "isAllowed ds h \<longleftrightarrow> (\<exists>d \<in> set ds. h = d \<or> (\<exists>q. h = q @ ''.'' @ d))"
  by (simp add: isAllowed_def list_ex_iff endsWith_iff)

lemma appendParams_eq: "appendParams ps u = u\<lparr>searchParams := searchParams u @ ps\<rparr>"
  unfolding appendParams_def
  by (induction ps arbitrary: u) (simp_all add: case_prod_beta)

lemma effect_empty:
  "\<not> truthy cu \<Longrightarrow>
   PageContent_effect w cfg cu r st =
     st\<lparr>finalIframeUrl := None, securityError := None, isIframeLoading := False\<rparr>"
  by (auto simp: PageContent_effect_def truthy_def split: option.splits)

lemma effect_invalid:
  "url \<noteq> [] \<Longrightarrow> newURL w url (location_origin w) = None \<Longrightarrow>
   PageContent_effect w cfg (Some url) r st =
     st\<lparr>securityError := Some invalidUrlMessage, finalIframeUrl := None, isIframeLoading := False\<rparr>"
  by (simp add: PageContent_effect_def)

lemma effect_blocked:
  "url \<noteq> [] \<Longrightarrow> newURL w url (location_origin w) = Some u \<Longrightarrow>
   \<not> isRelative url \<Longrightarrow> \<not> isAllowed (allowedDomainsOf cfg) (hostname u) \<Longrightarrow>
   PageContent_effect w cfg (Some url) r st =
     st\<lparr>securityError := Some blockedMessage, finalIframeUrl := None, isIframeLoading := False\<rparr>"
  by (simp add: PageContent_effect_def)

lemma effect_embedded:
  "url \<noteq> [] \<Longrightarrow> newURL w url (location_origin w) = Some u \<Longrightarrow>
   isRelative url \<or> isAllowed (allowedDomainsOf cfg) (hostname u) \<Longrightarrow>
   PageContent_effect w cfg (Some url) r st =
     st\<lparr>isIframeLoading := True, finalIframeUrl := Some (embedded w u r), securityError := None\<rparr>"
  by (auto simp: PageContent_effect_def embedded_def appendParams_eq Let_def)

lemma messages_differ: "blockedMessage \<noteq> invalidUrlMessage"
  by (simp add: blockedMessage_def invalidUrlMessage_def)

lemma blockedMessage_truthy: "truthy (Some blockedMessage)"
  by (simp add: truthy_def blockedMessage_def)

lemma render_blocked:
  "securityError st = Some blockedMessage \<Longrightarrow>
   PageContent_render cfg h st = ContentBlocked blockedMessage"
  using blockedMessage_truthy by (simp add: PageContent_render_def)


text \<open>
  C1, as amended. For a configured iframeUrl that does not start with \<open>/\<close> or \<open>./\<close>,
  the allow-list is enforced before the URL is embedded: when the hostname of the
  resolved URL is no entry of the allow-list and does not end with a dot and an entry,
  no iframe URL is produced and the view is the Content Blocked message; and an iframe
  URL is produced only for a URL that resolves and whose hostname passes the check.
\<close>

theorem allowlist_enforced_for_absolute:
  assumes "url \<noteq> []" and "\<not> startsWith url ''/''" and "\<not> startsWith url ''./''"
  shows "(\<forall>u. newURL w url (location_origin w) = Some u \<and>
            (\<forall>d \<in> set (allowedDomainsOf cfg). hostname u \<noteq> d \<and> (\<forall>q. hostname u \<noteq> q @ ''.'' @ d)) \<longrightarrow>
            finalIframeUrl (PageContent_effect w cfg (Some url) r st) = None \<and>
            securityError (PageContent_effect w cfg (Some url) r st) = Some blockedMessage \<and>
            PageContent_render cfg h (PageContent_effect w cfg (Some url) r st) =
              ContentBlocked blockedMessage) \<and>
         (\<forall>s. finalIframeUrl (PageContent_effect w cfg (Some url) r st) = Some s \<longrightarrow>
            (\<exists>u. newURL w url (location_origin w) = Some u \<and>
               (\<exists>d \<in> set (allowedDomainsOf cfg). hostname u = d \<or> (\<exists>q. hostname u = q @ ''.'' @ d))))"
proof -
  let ?st' = "PageContent_effect w cfg (Some url) r st"
  from assms have nrel: "\<not> isRelative url" by (simp add: isRelative_def)
  have blocked: "finalIframeUrl ?st' = None \<and> securityError ?st' = Some blockedMessage \<and>
      PageContent_render cfg h ?st' = ContentBlocked blockedMessage"
    if u: "newURL w url (location_origin w) = Some u"
      and no: "\<forall>d \<in> set (allowedDomainsOf cfg). hostname u \<noteq> d \<and> (\<forall>q. hostname u \<noteq> q @ ''.'' @ d)"
    for u
  proof -
    from no have "\<not> isAllowed (allowedDomainsOf cfg) (hostname u)"
      by (auto simp: isAllowed_iff)
    from effect_blocked[OF assms(1) u nrel this]
    have eq: "?st' = st\<lparr>securityError := Some blockedMessage, finalIframeUrl := None,
        isIframeLoading := False\<rparr>" .
    then have "securityError ?st' = Some blockedMessage" by simp
    with eq show ?thesis by (simp add: render_blocked)
  qed
  have only: "\<exists>u. newURL w url (location_origin w) = Some u \<and>
      (\<exists>d \<in> set (allowedDomainsOf cfg). hostname u = d \<or> (\<exists>q. hostname u = q @ ''.'' @ d))"
    if s: "finalIframeUrl ?st' = Some s" for s
  proof (cases "newURL w url (location_origin w)")
    case None
    from effect_invalid[OF assms(1) None] s show ?thesis by simp
  next
    case (Some u)
    have "isAllowed (allowedDomainsOf cfg) (hostname u)"
    proof (rule ccontr)
      assume "\<not> isAllowed (allowedDomainsOf cfg) (hostname u)"
      from effect_blocked[OF assms(1) Some nrel this] s show False by simp
    qed
    with Some show ?thesis by (simp add: isAllowed_iff)
  qed
  from blocked only show ?thesis by blast
qed

lemma example_allowed: "allowedDomainsOf exampleSettings = [''mypancho.com'']"
  by (simp add: allowedDomainsOf_def allowedIframeDomainsOf_def exampleSettings_def)

lemma example_origin: "location_origin exampleWindow = ''https://dash.example''"
  and example_search: "newURLSearchParams exampleWindow (location_search exampleWindow) =
      [(''primary'', ''red''), (''lang'', ''en'')]"
  and example_newURL: "newURL exampleWindow = exampleNewURL"
  and example_toString: "toString exampleWindow = exampleToString"
  by (simp_all add: exampleWindow_def)

lemma not_allowed_evil: "\<not> isAllowed [''mypancho.com''] ''evil.example''"
  and not_allowed_dash: "\<not> isAllowed [''mypancho.com''] ''dash.example''"
  and not_allowed_cdn: "\<not> isAllowed [''mypancho.com''] ''cdn.other.example''"
  and allowed_app: "isAllowed [''mypancho.com''] ''app.mypancho.com''"
  by (simp_all add: isAllowed_def endsWith_def)

theorem allowlist_enforced_for_absolute_witness:
  "finalIframeUrl (PageContent_effect exampleWindow exampleSettings (Some ''https://evil.example/x'')
      [] initialPageState) = None \<and>
   securityError (PageContent_effect exampleWindow exampleSettings (Some ''https://evil.example/x'')
      [] initialPageState) = Some blockedMessage \<and>
   PageContent_render exampleSettings ''#/x''
      (PageContent_effect exampleWindow exampleSettings (Some ''https://evil.example/x'')
         [] initialPageState) = ContentBlocked blockedMessage"
proof -
  let ?u = "\<lparr>protocol = ''https:'', hostname = ''evil.example'', port = [],
             pathname = ''/x'', searchParams = [], hash = []\<rparr>"
  have a: "''https://evil.example/x'' \<noteq> []"
    and b: "\<not> startsWith ''https://evil.example/x'' ''/''"
    and c: "\<not> startsWith ''https://evil.example/x'' ''./''"
    by (simp_all add: startsWith_def)
  have p: "newURL exampleWindow ''https://evil.example/x'' (location_origin exampleWindow) = Some ?u"
    by (simp add: example_origin example_newURL exampleNewURL_def)
  have n: "\<forall>d \<in> set (allowedDomainsOf exampleSettings).
      hostname ?u \<noteq> d \<and> (\<forall>q. hostname ?u \<noteq> q @ ''.'' @ d)"
    using not_allowed_evil unfolding isAllowed_iff example_allowed by simp
  note T = allowlist_enforced_for_absolute[OF a b c, of exampleWindow exampleSettings "[]"
      initialPageState "''#/x''"]
  show ?thesis
    by (rule mp[OF spec[OF conjunct1[OF T], of ?u]]) (use p n in blast)
qed

theorem allowlist_skipped_for_relative_counterexample:
  "newURL exampleWindow ''/reports.html'' (location_origin exampleWindow) =
     Some \<lparr>protocol = ''https:'', hostname = ''dash.example'', port = [],
           pathname = ''/reports.html'', searchParams = [], hash = []\<rparr> \<and>
   \<not> isAllowed (allowedDomainsOf exampleSettings) ''dash.example'' \<and>
   finalIframeUrl (PageContent_effect exampleWindow exampleSettings (Some ''/reports.html'')
      [] initialPageState) = Some ''https://dash.example/reports.html?primary=red&lang=en'' \<and>
   securityError (PageContent_effect exampleWindow exampleSettings (Some ''/reports.html'')
      [] initialPageState) = None"
proof -
  let ?u = "\<lparr>protocol = ''https:'', hostname = ''dash.example'', port = [],
             pathname = ''/reports.html'', searchParams = [], hash = []\<rparr>"
  have p: "newURL exampleWindow ''/reports.html'' (location_origin exampleWindow) = Some ?u"
    by (simp add: example_origin example_newURL exampleNewURL_def)
  have rel: "isRelative ''/reports.html'' \<or> isAllowed (allowedDomainsOf exampleSettings) (hostname ?u)"
    by (simp add: isRelative_def startsWith_def)
  have e: "embedded exampleWindow ?u [] = ''https://dash.example/reports.html?primary=red&lang=en''"
    by (simp add: embedded_def example_search example_toString exampleToString_def)
  have ne: "''/reports.html'' \<noteq> []" by simp
  show ?thesis
    using p not_allowed_dash e
    by (simp add: effect_embedded[OF ne p rel] example_allowed)
qed


text \<open>
  C5, as amended. An iframeUrl that starts with \<open>/\<close> (a protocol-relative \<open>//host/path\<close>
  included) or \<open>./\<close> is never checked against the allow-list: it cannot produce the
  allow-list error, and when the \<open>URL\<close> constructor accepts it, it is embedded whatever
  its hostname; when the constructor rejects it, the invalid-URL error is shown instead.
  Any other non-empty iframeUrl that resolves is checked: it is embedded exactly when its
  hostname passes, and blocked exactly when it does not.
\<close>

theorem relative_urls_skip_allowlist:
  "(startsWith url ''/'' \<or> startsWith url ''./'' \<longrightarrow>
      securityError (PageContent_effect w cfg (Some url) r st) \<noteq> Some blockedMessage \<and>
      (\<forall>u. newURL w url (location_origin w) = Some u \<longrightarrow>
         securityError (PageContent_effect w cfg (Some url) r st) = None \<and>
         (\<exists>u'. finalIframeUrl (PageContent_effect w cfg (Some url) r st) = Some (toString w u') \<and>
               hostname u' = hostname u)) \<and>
      (newURL w url (location_origin w) = None \<longrightarrow>
         finalIframeUrl (PageContent_effect w cfg (Some url) r st) = None \<and>
         securityError (PageContent_effect w cfg (Some url) r st) = Some invalidUrlMessage)) \<and>
   (url \<noteq> [] \<and> \<not> startsWith url ''/'' \<and> \<not> startsWith url ''./'' \<longrightarrow>
      (\<forall>u. newURL w url (location_origin w) = Some u \<longrightarrow>
         (securityError (PageContent_effect w cfg (Some url) r st) = Some blockedMessage
            \<longleftrightarrow> \<not> isAllowed (allowedDomainsOf cfg) (hostname u)) \<and>
         (finalIframeUrl (PageContent_effect w cfg (Some url) r st) \<noteq> None
            \<longleftrightarrow> isAllowed (allowedDomainsOf cfg) (hostname u))))"
proof -
  let ?st' = "PageContent_effect w cfg (Some url) r st"
  have rel: "securityError ?st' \<noteq> Some blockedMessage \<and>
      (\<forall>u. newURL w url (location_origin w) = Some u \<longrightarrow>
         securityError ?st' = None \<and>
         (\<exists>u'. finalIframeUrl ?st' = Some (toString w u') \<and> hostname u' = hostname u)) \<and>
      (newURL w url (location_origin w) = None \<longrightarrow>
         finalIframeUrl ?st' = None \<and> securityError ?st' = Some invalidUrlMessage)"
    if sw: "startsWith url ''/'' \<or> startsWith url ''./''"
  proof -
    from sw have ne: "url \<noteq> []" by (auto simp: startsWith_def)
    from sw have ir: "isRelative url" by (simp add: isRelative_def)
    show ?thesis
    proof (cases "newURL w url (location_origin w)")
      case None
      from effect_invalid[OF ne None] messages_differ None show ?thesis by auto
    next
      case (Some u)
      let ?u' = "u\<lparr>searchParams := searchParams u @ newURLSearchParams w (location_search w),
                   hash := (if r = [] then hash u else r)\<rparr>"
      from ir have "isRelative url \<or> isAllowed (allowedDomainsOf cfg) (hostname u)" ..
      from effect_embedded[OF ne Some this]
      have eq: "?st' = st\<lparr>isIframeLoading := True, finalIframeUrl := Some (toString w ?u'),
          securityError := None\<rparr>"
        by (simp add: embedded_def)
      have "finalIframeUrl ?st' = Some (toString w ?u') \<and> hostname ?u' = hostname u"
        unfolding eq by simp
      then have "\<exists>u'. finalIframeUrl ?st' = Some (toString w u') \<and> hostname u' = hostname u" ..
      moreover have "securityError ?st' = None" unfolding eq by simp
      ultimately show ?thesis using Some by simp
    qed
  qed
  have abs: "(securityError ?st' = Some blockedMessage \<longleftrightarrow> \<not> isAllowed (allowedDomainsOf cfg) (hostname u)) \<and>
      (finalIframeUrl ?st' \<noteq> None \<longleftrightarrow> isAllowed (allowedDomainsOf cfg) (hostname u))"
    if ne: "url \<noteq> []" and n1: "\<not> startsWith url ''/''" and n2: "\<not> startsWith url ''./''"
      and u: "newURL w url (location_origin w) = Some u" for u
  proof (cases "isAllowed (allowedDomainsOf cfg) (hostname u)")
    case True
    then have "isRelative url \<or> isAllowed (allowedDomainsOf cfg) (hostname u)" ..
    from effect_embedded[OF ne u this] True show ?thesis by simp
  next
    case False
    from n1 n2 have "\<not> isRelative url" by (simp add: isRelative_def)
    from effect_blocked[OF ne u this False] False show ?thesis by simp
  qed
  from rel abs show ?thesis by blast
qed

theorem relative_urls_skip_allowlist_witness:
  "startsWith ''//cdn.other.example/widget'' ''/'' \<and>
   \<not> isAllowed (allowedDomainsOf exampleSettings) ''cdn.other.example'' \<and>
   securityError (PageContent_effect exampleWindow exampleSettings
      (Some ''//cdn.other.example/widget'') [] initialPageState) = None \<and>
   (\<exists>u'. finalIframeUrl (PageContent_effect exampleWindow exampleSettings
      (Some ''//cdn.other.example/widget'') [] initialPageState) = Some (toString exampleWindow u') \<and>
      hostname u' = ''cdn.other.example'') \<and>
   securityError (PageContent_effect exampleWindow exampleSettings
      (Some ''https://evil.example/x'') [] initialPageState) = Some blockedMessage"
proof -
  let ?cdn = "\<lparr>protocol = ''https:'', hostname = ''cdn.other.example'', port = [],
               pathname = ''/widget'', searchParams = [], hash = []\<rparr>"
  let ?evil = "\<lparr>protocol = ''https:'', hostname = ''evil.example'', port = [],
             pathname = ''/x'', searchParams = [], hash = []\<rparr>"
  have sw: "startsWith ''//cdn.other.example/widget'' ''/''"
    by (simp add: startsWith_def)
  have p: "newURL exampleWindow ''//cdn.other.example/widget'' (location_origin exampleWindow) = Some ?cdn"
    by (simp add: example_origin example_newURL exampleNewURL_def)
  have abs: "''https://evil.example/x'' \<noteq> [] \<and> \<not> startsWith ''https://evil.example/x'' ''/'' \<and>
      \<not> startsWith ''https://evil.example/x'' ''./''"
    by (simp add: startsWith_def)
  have pe: "newURL exampleWindow ''https://evil.example/x'' (location_origin exampleWindow) = Some ?evil"
    by (simp add: example_origin example_newURL exampleNewURL_def)
  note T = relative_urls_skip_allowlist[of "''//cdn.other.example/widget''" exampleWindow
      exampleSettings "[]" initialPageState]
  note U = relative_urls_skip_allowlist[of "''https://evil.example/x''" exampleWindow
      exampleSettings "[]" initialPageState]
  from T sw p have 1: "securityError (PageContent_effect exampleWindow exampleSettings
      (Some ''//cdn.other.example/widget'') [] initialPageState) = None \<and>
     (\<exists>u'. finalIframeUrl (PageContent_effect exampleWindow exampleSettings
      (Some ''//cdn.other.example/widget'') [] initialPageState) = Some (toString exampleWindow u') \<and>
      hostname u' = hostname ?cdn)"
    by blast
  from U abs pe have 2: "securityError (PageContent_effect exampleWindow exampleSettings
      (Some ''https://evil.example/x'') [] initialPageState) = Some blockedMessage
      \<longleftrightarrow> \<not> isAllowed (allowedDomainsOf exampleSettings) (hostname ?evil)"
    by blast
  from 1 2 sw not_allowed_cdn not_allowed_evil show ?thesis
    by (simp add: example_allowed)
qed

theorem relative_url_rejected_counterexample:
  "startsWith ''//reports.example:99999/'' ''/'' \<and>
   newURL exampleWindow ''//reports.example:99999/'' (location_origin exampleWindow) = None \<and>
   finalIframeUrl (PageContent_effect exampleWindow exampleSettings
      (Some ''//reports.example:99999/'') [] initialPageState) = None \<and>
   securityError (PageContent_effect exampleWindow exampleSettings
      (Some ''//reports.example:99999/'') [] initialPageState) = Some invalidUrlMessage \<and>
   PageContent_render exampleSettings ''#/bad''
     (PageContent_effect exampleWindow exampleSettings
        (Some ''//reports.example:99999/'') [] initialPageState) = ContentBlocked invalidUrlMessage"
proof -
  have p: "newURL exampleWindow ''//reports.example:99999/'' (location_origin exampleWindow) = None"
    by (simp add: example_origin example_newURL exampleNewURL_def)
  have ne: "''//reports.example:99999/'' \<noteq> []" by simp
  have t: "truthy (Some invalidUrlMessage)" by (simp add: truthy_def invalidUrlMessage_def)
  show ?thesis
    using p t by (simp add: effect_invalid[OF ne p] startsWith_def PageContent_render_def)
qed

lemma findNavItemByHref_rest:
  assumes "findNavItemByHref items h = Some (l, r)"
  shows "h = href l @ r" and "l \<in> set (navLinks items)"
proof -
  have "bestOf h (navLinks items) (Some (l, r))"
    using foldl_checkItem_best[of h "navLinks items"] assms
    by (simp add: findNavItemByHref_navLinks)
  then obtain before after where ml: "matchesHash h l" and r: "r = drop (length (href l)) h"
    and ls: "navLinks items = before @ l # after"
    unfolding bestOf_def by (simp only: option.case prod.case) blast
  from matchesHash_startsWith[OF ml] r show "h = href l @ r"
    by (metis append_take_drop_id startsWith_def)
  from ls show "l \<in> set (navLinks items)" by simp
qed

text \<open>
  C4. When the route matches a link whose iframeUrl resolves and passes the security
  check (or is exempt from it), the frame's URL is the serialization of the resolved URL
  with every pair of the page's query string appended, in order, behind the pairs the
  configured URL already has, and with the residual of the hash (what the current hash
  has beyond the matched href) as its hash when that residual is not empty; with an empty
  residual the hash of the configured URL stays. Nothing else of the URL is changed.
\<close>

theorem query_and_hash_passed_to_frame:
  assumes "PageContent_match cfg h = Some (l, r)"
    and "iframeUrl l = Some url" and "url \<noteq> []"
    and "newURL w url (location_origin w) = Some u"
    and "isRelative url \<or> isAllowed (allowedDomainsOf cfg) (hostname u)"
  shows "routeHref (navItems (sidebar cfg)) h = href l @ r \<and>
         securityError (state (PageContent_mount w cfg h)) = None \<and>
         (\<exists>u'. finalIframeUrl (state (PageContent_mount w cfg h)) = Some (toString w u') \<and>
            searchParams u' = searchParams u @ newURLSearchParams w (location_search w) \<and>
            hash u' = (if r = [] then hash u else r) \<and>
            protocol u' = protocol u \<and> hostname u' = hostname u \<and>
            port u' = port u \<and> pathname u' = pathname u)"
proof -
  let ?u' = "u\<lparr>searchParams := searchParams u @ newURLSearchParams w (location_search w),
               hash := (if r = [] then hash u else r)\<rparr>"
  from assms(1) have rest: "routeHref (navItems (sidebar cfg)) h = href l @ r"
    unfolding PageContent_match_def by (rule findNavItemByHref_rest)
  have st: "state (PageContent_mount w cfg h) =
      PageContent_effect w cfg (Some url) r initialPageState"
    using assms(1,2)
    by (simp add: PageContent_mount_def PageContent_runEffect_def iframeUrlOf_def iframeHashOf_def)
  have eq: "state (PageContent_mount w cfg h) =
      initialPageState\<lparr>isIframeLoading := True, finalIframeUrl := Some (toString w ?u'),
        securityError := None\<rparr>"
    unfolding st effect_embedded[OF assms(3,4,5)] by (simp add: embedded_def)
  have fin: "finalIframeUrl (state (PageContent_mount w cfg h)) = Some (toString w ?u')"
    unfolding eq by simp
  have ex: "\<exists>u'. finalIframeUrl (state (PageContent_mount w cfg h)) = Some (toString w u') \<and>
      searchParams u' = searchParams u @ newURLSearchParams w (location_search w) \<and>
      hash u' = (if r = [] then hash u else r) \<and>
      protocol u' = protocol u \<and> hostname u' = hostname u \<and>
      port u' = port u \<and> pathname u' = pathname u"
  proof (intro exI conjI)
    show "finalIframeUrl (state (PageContent_mount w cfg h)) = Some (toString w ?u')"
      by (rule fin)
  qed simp_all
  have err: "securityError (state (PageContent_mount w cfg h)) = None"
    unfolding eq by simp
  from rest err ex show ?thesis by (intro conjI)
qed

lemma example_navItems: "navItems (sidebar exampleSettings) = exampleNav"
  by (simp add: exampleSettings_def)

lemma example_match_sec:
  "PageContent_match exampleSettings ''#/a#b#sec'' = Some (linkA_B, ''#sec'')"
  by (simp add: PageContent_match_def example_navItems routeHref_def exampleNav_def
        findNavItemByHref_def checkItem_def startsWith_def charAt_def substring_def
        linkA_def linkAB_def linkA_B_def linkEvil_def linkCdn_def linkBadPort_def)

theorem query_and_hash_passed_to_frame_witness:
  "\<exists>u'. finalIframeUrl (state (PageContent_mount exampleWindow exampleSettings ''#/a#b#sec'')) =
          Some (toString exampleWindow u') \<and>
        searchParams u' = [(''tab'', ''1''), (''primary'', ''red''), (''lang'', ''en'')] \<and>
        hash u' = ''#sec'' \<and> protocol u' = ''https:'' \<and> hostname u' = ''app.mypancho.com'' \<and>
        port u' = [] \<and> pathname u' = ''/home''"
proof -
  let ?url = "''https://app.mypancho.com/home?tab=1#top''"
  let ?u = "\<lparr>protocol = ''https:'', hostname = ''app.mypancho.com'', port = [],
             pathname = ''/home'', searchParams = [(''tab'', ''1'')], hash = ''#top''\<rparr>"
  have a: "iframeUrl linkA_B = Some ?url" by (simp add: linkA_B_def)
  have b: "?url \<noteq> []" by simp
  have c: "newURL exampleWindow ?url (location_origin exampleWindow) = Some ?u"
    by (simp add: example_origin example_newURL exampleNewURL_def)
  have d: "isRelative ?url \<or> isAllowed (allowedDomainsOf exampleSettings) (hostname ?u)"
    using allowed_app by (simp add: example_allowed)
  from query_and_hash_passed_to_frame[OF example_match_sec a b c d]
  have "\<exists>u'. finalIframeUrl (state (PageContent_mount exampleWindow exampleSettings ''#/a#b#sec'')) =
          Some (toString exampleWindow u') \<and>
        searchParams u' = searchParams ?u @
          newURLSearchParams exampleWindow (location_search exampleWindow) \<and>
        hash u' = (if ''#sec'' = [] then hash ?u else ''#sec'') \<and>
        protocol u' = protocol ?u \<and> hostname u' = hostname ?u \<and>
        port u' = port ?u \<and> pathname u' = pathname ?u"
    by (elim conjE)
  then obtain u' where f1:
    "finalIframeUrl (state (PageContent_mount exampleWindow exampleSettings ''#/a#b#sec'')) =
       Some (toString exampleWindow u')"
    and f2: "searchParams u' = searchParams ?u @
       newURLSearchParams exampleWindow (location_search exampleWindow)"
    and f3: "hash u' = (if ''#sec'' = [] then hash ?u else ''#sec'')"
    and f4: "protocol u' = protocol ?u" and f5: "hostname u' = hostname ?u"
    and f6: "port u' = port ?u" and f7: "pathname u' = pathname ?u"
    by (elim exE conjE)
  have g2: "searchParams u' = [(''tab'', ''1''), (''primary'', ''red''), (''lang'', ''en'')]"
    unfolding f2 example_search by simp
  have g3: "hash u' = ''#sec''" unfolding f3 by simp
  have g4: "protocol u' = ''https:''" unfolding f4 by simp
  have g5: "hostname u' = ''app.mypancho.com''" unfolding f5 by simp
  have g6: "port u' = []" unfolding f6 by simp
  have g7: "pathname u' = ''/home''" unfolding f7 by simp
  show ?thesis
    by (intro exI conjI) (rule f1, rule g2, rule g3, rule g4, rule g5, rule g6, rule g7)
qed

section \<open>PageContent over a visit: the content depends on the current hash only\<close>

lemma effect_overwrites:
  "finalIframeUrl (PageContent_effect w cfg cu r st) = finalIframeUrl (PageContent_effect w cfg cu r st')"
  "securityError (PageContent_effect w cfg cu r st) = securityError (PageContent_effect w cfg cu r st')"
  by (simp_all add: PageContent_effect_def Let_def split: option.splits)

lemma settled_mount: "settled w cfg (PageContent_mount w cfg h)"
  by (simp add: settled_def PageContent_mount_def)

lemma runEffect_deps:
  "PageContent_deps cfg h = PageContent_deps cfg h' \<Longrightarrow>
   PageContent_runEffect w cfg h st = PageContent_runEffect w cfg h' st"
  by (simp add: PageContent_deps_def PageContent_runEffect_def)

lemma settled_step: "settled w cfg p \<Longrightarrow> settled w cfg (PageContent_step w cfg p ev)"
proof (cases ev)
  case (HashChange h)
  assume s: "settled w cfg p"
  show ?thesis
  proof (cases "PageContent_deps cfg h = effectDeps p")
    case True
    with s have "PageContent_deps cfg h = PageContent_deps cfg (curHash p)"
      by (simp add: settled_def)
    from runEffect_deps[OF this, of w initialPageState] s True HashChange
    show ?thesis by (simp add: settled_def)
  next
    case False
    with HashChange show ?thesis
      using effect_overwrites[of w cfg _ _ "state p" initialPageState]
      by (simp add: settled_def PageContent_runEffect_def)
  qed
next
  case IframeLoad
  assume "settled w cfg p"
  with IframeLoad show ?thesis by (simp add: settled_def)
qed

lemma settled_run: "settled w cfg (PageContent_run w cfg h es)"
proof (induction es rule: rev_induct)
  case Nil
  show ?case by (simp add: PageContent_run_def settled_mount)
next
  case (snoc e es)
  have "PageContent_run w cfg h (es @ [e]) =
      PageContent_step w cfg (PageContent_run w cfg h es) e"
    by (simp add: PageContent_run_def)
  with snoc show ?case by (simp add: settled_step)
qed

lemma render_loading_irrelevant:
  "finalIframeUrl s1 = finalIframeUrl s2 \<Longrightarrow> securityError s1 = securityError s2 \<Longrightarrow>
   PageContent_render cfg h (s1\<lparr>isIframeLoading := b\<rparr>) =
   PageContent_render cfg h (s2\<lparr>isIframeLoading := b\<rparr>)"
  by (simp add: PageContent_render_def split: option.splits)

text \<open>
  C8. Two visits of the page in the same browser window (origin, query string) with the
  same settings, whatever hashes they started at and whatever hash changes and frame
  loads happened, that stand at the same hash show the same content: the same final
  iframe URL, the same security error, and (the loading overlay apart) the same view. The
  content is the one a fresh mount at that hash computes.
\<close>

theorem PageContent_content_determined:
  assumes "curHash (PageContent_run w cfg h1 es1) = curHash (PageContent_run w cfg h2 es2)"
  shows "finalIframeUrl (state (PageContent_run w cfg h1 es1)) =
           finalIframeUrl (state (PageContent_run w cfg h2 es2)) \<and>
         securityError (state (PageContent_run w cfg h1 es1)) =
           securityError (state (PageContent_run w cfg h2 es2)) \<and>
         (\<forall>b. PageContent_render cfg (curHash (PageContent_run w cfg h1 es1))
                ((state (PageContent_run w cfg h1 es1))\<lparr>isIframeLoading := b\<rparr>) =
              PageContent_render cfg (curHash (PageContent_run w cfg h2 es2))
                ((state (PageContent_run w cfg h2 es2))\<lparr>isIframeLoading := b\<rparr>)) \<and>
         finalIframeUrl (state (PageContent_run w cfg h1 es1)) =
           finalIframeUrl (state (PageContent_mount w cfg (curHash (PageContent_run w cfg h1 es1)))) \<and>
         securityError (state (PageContent_run w cfg h1 es1)) =
           securityError (state (PageContent_mount w cfg (curHash (PageContent_run w cfg h1 es1))))"
proof -
  let ?p1 = "PageContent_run w cfg h1 es1" and ?p2 = "PageContent_run w cfg h2 es2"
  have s1: "settled w cfg ?p1" and s2: "settled w cfg ?p2" by (rule settled_run)+
  from s1 s2 assms have f: "finalIframeUrl (state ?p1) = finalIframeUrl (state ?p2)"
    and e: "securityError (state ?p1) = securityError (state ?p2)"
    by (simp_all add: settled_def)
  from s1 have m: "finalIframeUrl (state ?p1) = finalIframeUrl (state (PageContent_mount w cfg (curHash ?p1)))"
    "securityError (state ?p1) = securityError (state (PageContent_mount w cfg (curHash ?p1)))"
    by (simp_all add: settled_def PageContent_mount_def)
  have r: "\<forall>b. PageContent_render cfg (curHash ?p1) ((state ?p1)\<lparr>isIframeLoading := b\<rparr>) =
      PageContent_render cfg (curHash ?p2) ((state ?p2)\<lparr>isIframeLoading := b\<rparr>)"
    unfolding assms using render_loading_irrelevant[OF f e] by blast
  from f e r m show ?thesis by (intro conjI)
qed


lemma example_mount_sec:
  "finalIframeUrl (state (PageContent_mount exampleWindow exampleSettings ''#/a#b#sec'')) =
     Some ''https://app.mypancho.com/home?tab=1&primary=red&lang=en#sec''"
proof -
  let ?url = "''https://app.mypancho.com/home?tab=1#top''"
  let ?u = "\<lparr>protocol = ''https:'', hostname = ''app.mypancho.com'', port = [],
             pathname = ''/home'', searchParams = [(''tab'', ''1'')], hash = ''#top''\<rparr>"
  have b: "?url \<noteq> []" by simp
  have c: "newURL exampleWindow ?url (location_origin exampleWindow) = Some ?u"
    by (simp add: example_origin example_newURL exampleNewURL_def)
  have d: "isRelative ?url \<or> isAllowed (allowedDomainsOf exampleSettings) (hostname ?u)"
    using allowed_app by (simp add: example_allowed)
  have e: "embedded exampleWindow ?u ''#sec'' =
      ''https://app.mypancho.com/home?tab=1&primary=red&lang=en#sec''"
    by (simp add: embedded_def example_search example_toString exampleToString_def)
  have st: "state (PageContent_mount exampleWindow exampleSettings ''#/a#b#sec'') =
      PageContent_effect exampleWindow exampleSettings (Some ?url) ''#sec'' initialPageState"
    by (simp add: PageContent_mount_def PageContent_runEffect_def example_match_sec
          iframeUrlOf_def iframeHashOf_def linkA_B_def)
  show ?thesis unfolding st effect_embedded[OF b c d] e by simp
qed

theorem PageContent_content_determined_witness:
  "curHash (PageContent_run exampleWindow exampleSettings ''#/x''
      [HashChange ''#/a#b'', HashChange ''#/a#b#sec'', IframeLoad]) = ''#/a#b#sec'' \<and>
   curHash (PageContent_run exampleWindow exampleSettings ''#/a#b#sec'' []) = ''#/a#b#sec'' \<and>
   finalIframeUrl (state (PageContent_run exampleWindow exampleSettings ''#/x''
      [HashChange ''#/a#b'', HashChange ''#/a#b#sec'', IframeLoad])) =
     finalIframeUrl (state (PageContent_run exampleWindow exampleSettings ''#/a#b#sec'' [])) \<and>
   securityError (state (PageContent_run exampleWindow exampleSettings ''#/x''
      [HashChange ''#/a#b'', HashChange ''#/a#b#sec'', IframeLoad])) =
     securityError (state (PageContent_run exampleWindow exampleSettings ''#/a#b#sec'' [])) \<and>
   finalIframeUrl (state (PageContent_run exampleWindow exampleSettings ''#/x''
      [HashChange ''#/a#b'', HashChange ''#/a#b#sec'', IframeLoad])) =
     Some ''https://app.mypancho.com/home?tab=1&primary=red&lang=en#sec''"
proof -
  let ?es = "[HashChange ''#/a#b'', HashChange ''#/a#b#sec'', IframeLoad]"
  have hc: "curHash (PageContent_step w cfg p (HashChange h)) = h" for w cfg p h
    by simp
  have il: "curHash (PageContent_step w cfg p IframeLoad) = curHash p" for w cfg p
    by simp
  have c1: "curHash (PageContent_run exampleWindow exampleSettings ''#/x'' ?es) = ''#/a#b#sec''"
    unfolding PageContent_run_def foldl_Cons foldl_Nil il hc ..
  have c2: "curHash (PageContent_run exampleWindow exampleSettings ''#/a#b#sec'' []) = ''#/a#b#sec''"
    by (simp add: PageContent_run_def PageContent_mount_def)
  have eq: "curHash (PageContent_run exampleWindow exampleSettings ''#/x'' ?es) =
      curHash (PageContent_run exampleWindow exampleSettings ''#/a#b#sec'' [])"
    unfolding c1 c2 ..
  note T = PageContent_content_determined[OF eq]
  have v: "finalIframeUrl (state (PageContent_run exampleWindow exampleSettings ''#/x'' ?es)) =
      Some ''https://app.mypancho.com/home?tab=1&primary=red&lang=en#sec''"
    unfolding conjunct1[OF T] by (simp add: PageContent_run_def example_mount_sec)
  from c1 c2 conjunct1[OF T] conjunct1[OF conjunct2[OF T]] v show ?thesis
    by (intro conjI)
qed

end
